theory Spec2Isabelle
  imports Main
begin

section \<open>Strings and the Unicode tables\<close>

text \<open>
  A Python \<open>str\<close> is a sequence of Unicode code points, so a string is modelled as a list
  of code points (natural numbers); \<open>length\<close> then counts what Python's \<open>len\<close> counts.
  The plate letters are Cyrillic: U+0410 is 1040, U+0414 (the diplomatic literal) is 1044.
\<close>

type_synonym ustr = "nat list"

text \<open>
  \<open>str.upper\<close>, the class \<open>\d\<close> of \<open>re\<close> and \<open>str.strip\<close> read tables of the Unicode
  database that are not part of the repository. The tables are written out for ASCII and
  for the basic Cyrillic block U+0400..U+045F (where the plate letters live: no decimal
  digit, no white space, lower case 32 or 80 above upper case); everywhere else they are
  the fields of a parameter, and every theorem below holds for all of its values.
\<close>

record unicode_db =
  upper_of :: "nat \<Rightarrow> ustr"
  is_Nd :: "nat \<Rightarrow> bool"
  is_space :: "nat \<Rightarrow> bool"

definition basic_cyrillic :: "nat \<Rightarrow> bool" where
  "basic_cyrillic c = (1024 \<le> c \<and> c \<le> 1119)"

definition upper_char :: "unicode_db \<Rightarrow> nat \<Rightarrow> ustr" where
  "upper_char db c =
     (if c < 128 then (if 97 \<le> c \<and> c \<le> 122 then [c - 32] else [c])
      else if basic_cyrillic c then
        (if c \<le> 1071 then [c] else if c \<le> 1103 then [c - 32] else [c - 80])
      else upper_of db c)"

definition py_upper :: "unicode_db \<Rightarrow> ustr \<Rightarrow> ustr" where
  "py_upper db s = concat (map (upper_char db) s)"

definition py_digit :: "unicode_db \<Rightarrow> nat \<Rightarrow> bool" where
  "py_digit db c =
     (if c < 128 then 48 \<le> c \<and> c \<le> 57
      else if basic_cyrillic c then False
      else is_Nd db c)"

definition py_space :: "unicode_db \<Rightarrow> nat \<Rightarrow> bool" where
  "py_space db c =
     (if c < 128 then (9 \<le> c \<and> c \<le> 13) \<or> (28 \<le> c \<and> c \<le> 32)
      else if basic_cyrillic c then False
      else is_space db c)"

text \<open>\<open>s.replace(c, "")\<close> for a one-character \<open>c\<close>, \<open>s.strip()\<close>, \<open>s[-n:]\<close> and
  \<open>s.split(c)\<close> for a one-character separator.\<close>

definition remove_char :: "nat \<Rightarrow> ustr \<Rightarrow> ustr" where
  "remove_char c s = filter (\<lambda>x. x \<noteq> c) s"

definition py_strip :: "unicode_db \<Rightarrow> ustr \<Rightarrow> ustr" where
  "py_strip db s = rev (dropWhile (py_space db) (rev (dropWhile (py_space db) s)))"

definition last_chars :: "nat \<Rightarrow> ustr \<Rightarrow> ustr" where
  "last_chars n s = drop (length s - n) s"

fun py_split :: "nat \<Rightarrow> ustr \<Rightarrow> ustr list" where
  "py_split sep [] = [[]]"
| "py_split sep (c # cs) =
     (if c = sep then [] # py_split sep cs
      else (case py_split sep cs of
              [] \<Rightarrow> [[c]]
            | p # ps \<Rightarrow> (c # p) # ps))"

section \<open>Regular expressions as \<open>re.match\<close> runs them\<close>

text \<open>
  The six patterns use character classes, \<open>\d\<close>, literal characters, bounded repetition
  and the two anchors. A match state is the number of characters consumed and the rest of
  the string; an item maps a state to the states after it, longest repetition first.
  Without \<open>re.MULTILINE\<close>, \<open>$\<close> matches at the end of the string and also just before a
  newline (code point 10) that ends the string.
\<close>

datatype atom = Class ustr | Digit | Lit nat

datatype item = Bol | Eol | Rep atom nat nat

type_synonym pattern = "item list"

fun atom_ok :: "unicode_db \<Rightarrow> atom \<Rightarrow> nat \<Rightarrow> bool" where
  "atom_ok db (Class cs) c = (c \<in> set cs)"
| "atom_ok db Digit c = py_digit db c"
| "atom_ok db (Lit l) c = (c = l)"

definition eat :: "(nat \<Rightarrow> bool) \<Rightarrow> nat \<Rightarrow> ustr \<Rightarrow> ustr list" where
  "eat P k s = (if k \<le> length s \<and> list_all P (take k s) then [drop k s] else [])"

fun step_item :: "unicode_db \<Rightarrow> item \<Rightarrow> nat \<times> ustr \<Rightarrow> (nat \<times> ustr) list" where
  "step_item db Bol (pos, r) = (if pos = 0 then [(pos, r)] else [])"
| "step_item db Eol (pos, r) = (if r = [] \<or> r = [10] then [(pos, r)] else [])"
| "step_item db (Rep a m n) (pos, r) =
     concat (map (\<lambda>k. map (\<lambda>r'. (pos + k, r')) (eat (atom_ok db a) k r))
                 (rev [m ..< Suc n]))"

fun run_items :: "unicode_db \<Rightarrow> pattern \<Rightarrow> (nat \<times> ustr) list \<Rightarrow> (nat \<times> ustr) list" where
  "run_items db [] sts = sts"
| "run_items db (it # its) sts = run_items db its (concat (map (step_item db it) sts))"

definition re_match :: "unicode_db \<Rightarrow> pattern \<Rightarrow> ustr \<Rightarrow> bool" where
  "re_match db p s = (run_items db p [(0, s)] \<noteq> [])"

section \<open>The plate classifier\<close>

datatype plate_type = Standard | Taxi | Trailer | Motorcycle | Transit | Diplomatic

datatype error = IndexError

record result =
  is_valid :: bool
  plate_type :: "plate_type option"
  region_code :: "ustr option"
  message :: ustr

text \<open>The class of the twelve plate letters, as every pattern of the source spells it.\<close>

definition plate_letters :: ustr where
  "plate_letters = [1040, 1042, 1045, 1050, 1052, 1053, 1054, 1056, 1057, 1058, 1059, 1061]"

definition letters :: atom where
  "letters = Class plate_letters"

text \<open>The values of the dictionary \<open>patterns\<close>, one regular expression per key.\<close>

fun pattern_of :: "plate_type \<Rightarrow> pattern" where
  "pattern_of Standard = [Bol, Rep letters 1 1, Rep Digit 3 3, Rep letters 2 2, Rep Digit 2 3, Eol]"
| "pattern_of Taxi = [Bol, Rep letters 2 2, Rep Digit 3 3, Rep Digit 2 3, Eol]"
| "pattern_of Trailer = [Bol, Rep letters 2 2, Rep Digit 4 4, Rep Digit 2 3, Eol]"
| "pattern_of Motorcycle = [Bol, Rep Digit 4 4, Rep letters 2 2, Rep Digit 2 3, Eol]"
| "pattern_of Transit = [Bol, Rep (Lit 1058) 1 1, Rep Digit 5 5, Rep letters 1 1, Eol]"
| "pattern_of Diplomatic = [Bol, Rep Digit 3 4, Rep (Lit 1044) 1 1, Rep Digit 2 3, Eol]"

text \<open>The keys in insertion order, which is the order in which the loop visits them.\<close>

definition pattern_order :: "plate_type list" where
  "pattern_order = [Standard, Taxi, Trailer, Motorcycle, Transit, Diplomatic]"

definition patterns :: "(plate_type \<times> pattern) list" where
  "patterns = map (\<lambda>t. (t, pattern_of t)) pattern_order"

fun type_name :: "plate_type \<Rightarrow> ustr" where
  "type_name Standard = [115, 116, 97, 110, 100, 97, 114, 100]"
| "type_name Taxi = [116, 97, 120, 105]"
| "type_name Trailer = [116, 114, 97, 105, 108, 101, 114]"
| "type_name Motorcycle = [109, 111, 116, 111, 114, 99, 121, 99, 108, 101]"
| "type_name Transit = [116, 114, 97, 110, 115, 105, 116]"
| "type_name Diplomatic = [100, 105, 112, 108, 111, 109, 97, 116, 105, 99]"

text \<open>The two messages of the source, as code points (the text is Russian).\<close>

definition valid_message :: "plate_type \<Rightarrow> ustr" where
  "valid_message t =
     [1053, 1086, 1084, 1077, 1088, 1085, 1086, 1081, 32, 1079, 1085, 1072, 1082, 32,
      1082, 1086, 1088, 1088, 1077, 1082, 1090, 1077, 1085, 32, 40, 1090, 1080, 1087, 58, 32]
     @ type_name t @ [41]"

definition invalid_message :: ustr where
  "invalid_message =
     [1053, 1077, 1082, 1086, 1088, 1088, 1077, 1082, 1090, 1085, 1099, 1081, 32,
      1092, 1086, 1088, 1084, 1072, 1090, 32, 1085, 1086, 1084, 1077, 1088, 1085, 1086,
      1075, 1086, 32, 1079, 1085, 1072, 1082, 1072]"

definition normalize_plate :: "unicode_db \<Rightarrow> ustr \<Rightarrow> ustr" where
  "normalize_plate db s = remove_char 45 (remove_char 32 (py_upper db s))"

text \<open>The two region rules of the source: the one of the branch for \<open>standard\<close> and the
  one of the branch for the other three types with the region at the end.\<close>

definition region_standard :: "ustr \<Rightarrow> ustr" where
  "region_standard s = (if length s = 8 then last_chars 2 s else last_chars 3 s)"

definition region_other :: "ustr \<Rightarrow> ustr" where
  "region_other s = (if length s \<le> 8 then last_chars 2 s else last_chars 3 s)"

text \<open>\<open>plate_number.split(D)[1]\<close> raises IndexError when the split has one piece.\<close>

definition region_diplomatic :: "ustr \<Rightarrow> error + ustr" where
  "region_diplomatic s =
     (case py_split 1044 s of
        _ # piece # _ \<Rightarrow> Inr piece
      | _ \<Rightarrow> Inl IndexError)"

definition extract_region :: "plate_type \<Rightarrow> ustr \<Rightarrow> error + ustr option" where
  "extract_region t s =
     (if t \<in> set [Standard, Taxi, Trailer, Motorcycle] then
        (if t = Standard then Inr (Some (region_standard s))
         else Inr (Some (region_other s)))
      else if t = Diplomatic then
        (case region_diplomatic s of Inl e \<Rightarrow> Inl e | Inr piece \<Rightarrow> Inr (Some piece))
      else Inr None)"

definition valid_result :: "plate_type \<Rightarrow> ustr option \<Rightarrow> result" where
  "valid_result t reg =
     \<lparr>is_valid = True, plate_type = Some t, region_code = reg, message = valid_message t\<rparr>"

definition invalid_result :: result where
  "invalid_result =
     \<lparr>is_valid = False, plate_type = None, region_code = None, message = invalid_message\<rparr>"

text \<open>The loop over the dictionary: the first pattern that matches returns.\<close>

fun classify_loop :: "unicode_db \<Rightarrow> (plate_type \<times> pattern) list \<Rightarrow> ustr \<Rightarrow> error + result" where
  "classify_loop db [] s = Inr invalid_result"
| "classify_loop db ((t, p) # rest) s =
     (if re_match db p s then
        (case extract_region t s of
           Inl e \<Rightarrow> Inl e
         | Inr reg \<Rightarrow> Inr (valid_result t reg))
      else classify_loop db rest s)"

definition validate_russian_plate :: "unicode_db \<Rightarrow> ustr \<Rightarrow> error + result" where
  "validate_russian_plate db plate_number = classify_loop db patterns (normalize_plate db plate_number)"

text \<open>A database with no entry outside the written-out ranges, to run examples on.\<close>

definition sample_db :: unicode_db where
  "sample_db = \<lparr>upper_of = (\<lambda>c. [c]), is_Nd = (\<lambda>c. False), is_space = (\<lambda>c. False)\<rparr>"

section \<open>The endpoints and the counters\<close>

text \<open>The module-level dictionary \<open>validation_stats\<close>; Python integers are unbounded.
  The key \<open>total\<close> is the field \<open>total_count\<close>.\<close>

record stats =
  total_count :: int
  valid :: int
  invalid :: int

definition validation_stats :: stats where
  "validation_stats = \<lparr>total_count = 0, valid = 0, invalid = 0\<rparr>"

text \<open>The update that follows each classification, the same text in all three handlers.\<close>

definition update_stats :: "bool \<Rightarrow> stats \<Rightarrow> stats" where
  "update_stats ok st =
     (let st1 = st\<lparr>total_count := total_count st + 1\<rparr>
      in if ok then st1\<lparr>valid := valid st1 + 1\<rparr> else st1\<lparr>invalid := invalid st1 + 1\<rparr>)"

record license_plate_response = result +
  plate_number :: ustr

datatype response =
    Plate license_plate_response
  | Plates "license_plate_response list"
  | Stats int int int
  | HttpError nat ustr
  | ValidationError

text \<open>\<open>LicensePlateResponse(plate_number=..., **validation_result)\<close>.\<close>

definition plate_response :: "ustr \<Rightarrow> result \<Rightarrow> license_plate_response" where
  "plate_response p r =
     \<lparr>is_valid = is_valid r, plate_type = plate_type r, region_code = region_code r,
      message = message r, plate_number = p\<rparr>"

definition detail_processing :: ustr where
  "detail_processing =
     [1054, 1096, 1080, 1073, 1082, 1072, 32, 1087, 1088, 1080, 32, 1086, 1073, 1088,
      1072, 1073, 1086, 1090, 1082, 1077, 32, 1085, 1086, 1084, 1077, 1088, 1085, 1086,
      1075, 1086, 32, 1079, 1085, 1072, 1082, 1072]"

definition detail_blank :: ustr where
  "detail_blank =
     [1053, 1086, 1084, 1077, 1088, 1085, 1086, 1081, 32, 1079, 1085, 1072, 1082, 32,
      1085, 1077, 32, 1084, 1086, 1078, 1077, 1090, 32, 1073, 1099, 1090, 1100, 32,
      1087, 1091, 1089, 1090, 1099, 1084]"

definition detail_none :: ustr where
  "detail_none =
     [1053, 1077, 1086, 1073, 1093, 1086, 1076, 1080, 1084, 1086, 32, 1091, 1082, 1072,
      1079, 1072, 1090, 1100, 32, 1093, 1086, 1090, 1103, 32, 1073, 1099, 32, 1086,
      1076, 1080, 1085, 32, 1085, 1086, 1084, 1077, 1088, 1085, 1086, 1081, 32, 1079,
      1085, 1072, 1082]"

definition detail_max :: ustr where
  "detail_max =
     [1052, 1072, 1082, 1089, 1080, 1084, 1091, 1084, 32, 49, 48, 32, 1085, 1086, 1084,
      1077, 1088, 1085, 1099, 1093, 32, 1079, 1085, 1072, 1082, 1086, 1074, 32, 1079,
      1072, 32, 1088, 1072, 1079]"

text \<open>\<open>str(e)\<close> for the exception the classifier could raise.\<close>

fun error_text :: "error \<Rightarrow> ustr" where
  "error_text IndexError =
     [108, 105, 115, 116, 32, 105, 110, 100, 101, 120, 32, 111, 117, 116, 32, 111, 102,
      32, 114, 97, 110, 103, 101]"

definition item_error_message :: "error \<Rightarrow> ustr" where
  "item_error_message e =
     [1054, 1096, 1080, 1073, 1082, 1072, 32, 1087, 1088, 1080, 32, 1086, 1073, 1088,
      1072, 1073, 1086, 1090, 1082, 1077, 58, 32]
     @ error_text e"

text \<open>
  The request model of \<open>POST /validate\<close>: the length bounds of the field, then the
  validator, which rejects a blank value and strips the others. A rejected body is answered
  with 422 by the handler for validation errors and never reaches the endpoint.
\<close>

definition validate_plate_number :: "unicode_db \<Rightarrow> ustr \<Rightarrow> ustr option" where
  "validate_plate_number db v =
     (if v = [] \<or> py_strip db v = [] then None else Some (py_strip db v))"

definition license_plate_request :: "unicode_db \<Rightarrow> ustr \<Rightarrow> ustr option" where
  "license_plate_request db v =
     (if length v < 1 \<or> 20 < length v then None else validate_plate_number db v)"

text \<open>
  The two single-plate handlers: classify, count, answer. An exception of the classifier
  is raised before the counters are touched and becomes a 500. The handler of
  \<open>GET /{plate_number}\<close> passes the path segment on as it is, without stripping it.
\<close>

definition validate_license_plate :: "unicode_db \<Rightarrow> ustr \<Rightarrow> stats \<Rightarrow> response \<times> stats" where
  "validate_license_plate db body st =
     (case license_plate_request db body of
        None \<Rightarrow> (ValidationError, st)
      | Some p \<Rightarrow>
          (case validate_russian_plate db p of
             Inl e \<Rightarrow> (HttpError 500 detail_processing, st)
           | Inr r \<Rightarrow>
               (Plate (plate_response (normalize_plate db p) r), update_stats (is_valid r) st)))"

definition get_license_plate_info :: "unicode_db \<Rightarrow> ustr \<Rightarrow> stats \<Rightarrow> response \<times> stats" where
  "get_license_plate_info db p st =
     (if p = [] \<or> py_strip db p = [] then (HttpError 400 detail_blank, st)
      else (case validate_russian_plate db p of
              Inl e \<Rightarrow> (HttpError 500 detail_processing, st)
            | Inr r \<Rightarrow>
                (Plate (plate_response (normalize_plate db p) r), update_stats (is_valid r) st)))"

text \<open>The list comprehension of the batch handler, and its loop with the per-item
  \<open>except\<close> branch.\<close>

definition plate_list :: "unicode_db \<Rightarrow> ustr \<Rightarrow> ustr list" where
  "plate_list db plates = filter (\<lambda>p. p \<noteq> []) (map (py_strip db) (py_split 44 plates))"

fun batch_loop ::
  "unicode_db \<Rightarrow> ustr list \<Rightarrow> license_plate_response list \<Rightarrow> stats
     \<Rightarrow> license_plate_response list \<times> stats" where
  "batch_loop db [] results st = (results, st)"
| "batch_loop db (p # ps) results st =
     (case validate_russian_plate db p of
        Inl e \<Rightarrow>
          batch_loop db ps
            (results @ [\<lparr>is_valid = False, plate_type = None, region_code = None,
                          message = item_error_message e, plate_number = p\<rparr>]) st
      | Inr r \<Rightarrow>
          batch_loop db ps (results @ [plate_response (normalize_plate db p) r])
            (update_stats (is_valid r) st))"

definition validate_multiple_plates :: "unicode_db \<Rightarrow> ustr \<Rightarrow> stats \<Rightarrow> response \<times> stats" where
  "validate_multiple_plates db plates st =
     (let pl = plate_list db plates
      in if pl = [] then (HttpError 400 detail_none, st)
         else if 10 < length pl then (HttpError 400 detail_max, st)
         else (case batch_loop db pl [] st of (results, st') \<Rightarrow> (Plates results, st')))"

definition get_validation_stats :: "stats \<Rightarrow> response \<times> stats" where
  "get_validation_stats st = (Stats (total_count st) (valid st) (invalid st), st)"

text \<open>The service handles one request after the other, starting from the zero counters.\<close>

datatype request = PostValidate ustr | GetInfo ustr | GetMany ustr | GetStats

fun handle :: "unicode_db \<Rightarrow> request \<Rightarrow> stats \<Rightarrow> response \<times> stats" where
  "handle db (PostValidate body) st = validate_license_plate db body st"
| "handle db (GetInfo p) st = get_license_plate_info db p st"
| "handle db (GetMany plates) st = validate_multiple_plates db plates st"
| "handle db GetStats st = get_validation_stats st"

inductive reachable :: "unicode_db \<Rightarrow> stats \<Rightarrow> bool" for db where
  start: "reachable db validation_stats"
| step: "reachable db st \<Longrightarrow> handle db req st = (resp, st') \<Longrightarrow> reachable db st'"

section \<open>The specification's words\<close>

text \<open>The position of each type in the pattern table of the specification.\<close>

fun table_order :: "plate_type \<Rightarrow> nat" where
  "table_order Standard = 1"
| "table_order Taxi = 2"
| "table_order Trailer = 3"
| "table_order Motorcycle = 4"
| "table_order Transit = 5"
| "table_order Diplomatic = 6"

text \<open>
  The column "region extraction" of that table, row by row, in words of its own: the last
  \<open>n\<close> characters of a string are the first \<open>n\<close> of its reversal, put back in order, and
  the substring after a literal is what follows its first occurrence.
\<close>

definition final_chars :: "nat \<Rightarrow> ustr \<Rightarrow> ustr" where
  "final_chars n s = rev (take n (rev s))"

definition after_literal :: "nat \<Rightarrow> ustr \<Rightarrow> ustr" where
  "after_literal c s = tl (dropWhile (\<lambda>x. x \<noteq> c) s)"

fun table_region :: "plate_type \<Rightarrow> ustr \<Rightarrow> ustr option" where
  "table_region Standard s = Some (if length s = 8 then final_chars 2 s else final_chars 3 s)"
| "table_region Taxi s = Some (if length s \<le> 8 then final_chars 2 s else final_chars 3 s)"
| "table_region Trailer s = Some (if length s \<le> 8 then final_chars 2 s else final_chars 3 s)"
| "table_region Motorcycle s = Some (if length s \<le> 8 then final_chars 2 s else final_chars 3 s)"
| "table_region Transit s = None"
| "table_region Diplomatic s = Some (after_literal 1044 s)"

text \<open>One classification counted: the total and exactly one of the other two grow by one.\<close>

definition counted_once :: "stats \<Rightarrow> stats \<Rightarrow> bool" where
  "counted_once st st' =
     (total_count st' = total_count st + 1 \<and>
      (valid st' = valid st + 1 \<and> invalid st' = invalid st \<or>
       valid st' = valid st \<and> invalid st' = invalid st + 1))"

text \<open>A result is well formed: a type exactly when valid, no region when invalid, and a
  region of two or three decimal digits.\<close>

definition well_formed :: "unicode_db \<Rightarrow> result \<Rightarrow> bool" where
  "well_formed db r =
     ((plate_type r = None) = (\<not> is_valid r) \<and>
      (is_valid r \<or> region_code r = None) \<and>
      (case region_code r of
         None \<Rightarrow> True
       | Some reg \<Rightarrow> (length reg = 2 \<or> length reg = 3) \<and> list_all (py_digit db) reg))"

text \<open>The seven shapes of a result: the invalid one, and a valid one for each type.\<close>

definition result_shapes :: "(result \<Rightarrow> bool) list" where
  "result_shapes =
     (\<lambda>r. r = invalid_result) # map (\<lambda>t r. r = valid_result t (region_code r)) pattern_order"

text \<open>The number of classifications that a request performs.\<close>

fun classifications :: "unicode_db \<Rightarrow> request \<Rightarrow> nat" where
  "classifications db (PostValidate body) =
     (case license_plate_request db body of None \<Rightarrow> 0 | Some p \<Rightarrow> 1)"
| "classifications db (GetInfo p) = (if p = [] \<or> py_strip db p = [] then 0 else 1)"
| "classifications db (GetMany plates) =
     (let pl = plate_list db plates in if pl = [] \<or> 10 < length pl then 0 else length pl)"
| "classifications db GetStats = 0"

section \<open>What a matching string looks like\<close>

definition plate_letter :: "nat \<Rightarrow> bool" where
  "plate_letter c = (c \<in> set plate_letters)"

definition line_end :: "ustr \<Rightarrow> bool" where
  "line_end r = (r = [] \<or> r = [10])"

definition region_end :: "unicode_db \<Rightarrow> ustr \<Rightarrow> bool" where
  "region_end db r = (line_end r \<or> (\<exists>i r'. r = i # r' \<and> py_digit db i \<and> line_end r'))"

subsection \<open>The matcher as a set of runs\<close>

lemma eat_iff: "r \<in> set (eat P k s) \<longleftrightarrow> (\<exists>u. s = u @ r \<and> length u = k \<and> list_all P u)"
proof
  assume "r \<in> set (eat P k s)"
  then have "k \<le> length s" "list_all P (take k s)" "r = drop k s"
    by (auto simp: eat_def split: if_splits)
  then have "s = take k s @ r \<and> length (take k s) = k \<and> list_all P (take k s)" by simp
  then show "\<exists>u. s = u @ r \<and> length u = k \<and> list_all P u" by blast
next
  assume "\<exists>u. s = u @ r \<and> length u = k \<and> list_all P u"
  then show "r \<in> set (eat P k s)" by (auto simp: eat_def)
qed

lemma run_items_set:
  "set (run_items db its sts) = (\<Union>st \<in> set sts. set (run_items db its [st]))"
proof (induction its arbitrary: sts)
  case Nil
  show ?case by auto
next
  case (Cons it its)
  have l: "set (run_items db (it # its) sts) =
      (\<Union>st' \<in> set (concat (map (step_item db it) sts)). set (run_items db its [st']))"
    using Cons.IH [of "concat (map (step_item db it) sts)"] by simp
  have r: "set (run_items db (it # its) [st]) =
      (\<Union>st' \<in> set (step_item db it st). set (run_items db its [st']))" for st
    using Cons.IH [of "step_item db it st"] by simp
  show ?case unfolding l r by auto
qed

lemma run_cons_iff:
  "x \<in> set (run_items db (it # its) [st]) \<longleftrightarrow>
     (\<exists>st' \<in> set (step_item db it st). x \<in> set (run_items db its [st']))"
  using run_items_set [of db its "step_item db it st"] by simp

lemma run_nil_iff: "x \<in> set (run_items db [] [st]) \<longleftrightarrow> x = st"
  by simp

lemma re_match_iff: "re_match db p s \<longleftrightarrow> (\<exists>x. x \<in> set (run_items db p [(0, s)]))"
  unfolding re_match_def by (cases "run_items db p [(0, s)]") auto

lemma len1: "length u = Suc 0 \<longleftrightarrow> (\<exists>a. u = [a])"
  by (cases u) auto

lemma len2: "length u = 2 \<longleftrightarrow> (\<exists>a b. u = [a, b])"
  by (auto simp: numeral_2_eq_2 length_Suc_conv)

lemma len3: "length u = 3 \<longleftrightarrow> (\<exists>a b c. u = [a, b, c])"
  by (auto simp: numeral_3_eq_3 length_Suc_conv)

lemma len4: "length u = 4 \<longleftrightarrow> (\<exists>a b c d. u = [a, b, c, d])"
proof -
  have "length u = Suc 3 \<longleftrightarrow> (\<exists>a v. u = a # v \<and> length v = 3)"
    by (simp only: length_Suc_conv)
  then show ?thesis by (auto simp: len3)
qed

lemma len5: "length u = 5 \<longleftrightarrow> (\<exists>a b c d e. u = [a, b, c, d, e])"
proof -
  have "length u = Suc 4 \<longleftrightarrow> (\<exists>a v. u = a # v \<and> length v = 4)"
    by (simp only: length_Suc_conv)
  then show ?thesis by (auto simp: len4)
qed

lemmas match_simps =
  re_match_iff run_cons_iff run_nil_iff eat_iff Bex_def len1 len2 len3 len4 len5

subsection \<open>The six shapes\<close>

lemma ok_letters: "atom_ok db letters = plate_letter"
  by (rule ext) (simp add: plate_letter_def letters_def)

lemma ok_digit: "atom_ok db Digit = py_digit db"
  by (rule ext) simp

lemma ok_lit: "atom_ok db (Lit l) = (\<lambda>c. c = l)"
  by (rule ext) simp

lemmas shape_simps = match_simps ok_letters ok_digit ok_lit region_end_def line_end_def

lemma standard_shape:
  "re_match db (pattern_of Standard) s \<Longrightarrow>
   \<exists>a b c d e f g h r. s = [a, b, c, d, e, f, g, h] @ r \<and> plate_letter a \<and>
      py_digit db b \<and> py_digit db c \<and> py_digit db d \<and> plate_letter e \<and> plate_letter f \<and>
      py_digit db g \<and> py_digit db h \<and> region_end db r"
  apply (simp add: shape_simps)
  apply (elim exE conjE disjE)
     apply simp_all
  done

lemma taxi_shape:
  "re_match db (pattern_of Taxi) s \<Longrightarrow>
   \<exists>a b c d e f g r. s = [a, b, c, d, e, f, g] @ r \<and> plate_letter a \<and> plate_letter b \<and>
      py_digit db c \<and> py_digit db d \<and> py_digit db e \<and> py_digit db f \<and> py_digit db g \<and>
      region_end db r"
  apply (simp add: shape_simps)
  apply (elim exE conjE disjE)
     apply simp_all
  done

lemma trailer_shape:
  "re_match db (pattern_of Trailer) s \<Longrightarrow>
   \<exists>a b c d e f g h r. s = [a, b, c, d, e, f, g, h] @ r \<and> plate_letter a \<and> plate_letter b \<and>
      py_digit db c \<and> py_digit db d \<and> py_digit db e \<and> py_digit db f \<and> py_digit db g \<and>
      py_digit db h \<and> region_end db r"
  apply (simp add: shape_simps)
  apply (elim exE conjE disjE)
     apply simp_all
  done

lemma motorcycle_shape:
  "re_match db (pattern_of Motorcycle) s \<Longrightarrow>
   \<exists>a b c d e f g h r. s = [a, b, c, d, e, f, g, h] @ r \<and> py_digit db a \<and> py_digit db b \<and>
      py_digit db c \<and> py_digit db d \<and> plate_letter e \<and> plate_letter f \<and> py_digit db g \<and>
      py_digit db h \<and> region_end db r"
  apply (simp add: shape_simps)
  apply (elim exE conjE disjE)
     apply simp_all
  done

lemma transit_shape:
  "re_match db (pattern_of Transit) s \<Longrightarrow>
   \<exists>b c d e f g r. s = [1058, b, c, d, e, f, g] @ r \<and>
      py_digit db b \<and> py_digit db c \<and> py_digit db d \<and> py_digit db e \<and> py_digit db f \<and>
      plate_letter g \<and> line_end r"
  apply (simp add: shape_simps)
  apply (elim exE conjE disjE)
     apply simp_all
  done

lemma diplomatic_shape:
  "re_match db (pattern_of Diplomatic) s \<Longrightarrow>
   (\<exists>a b c g h r. s = [a, b, c, 1044, g, h] @ r \<and> py_digit db a \<and> py_digit db b \<and>
      py_digit db c \<and> py_digit db g \<and> py_digit db h \<and> region_end db r) \<or>
   (\<exists>a b c d g h r. s = [a, b, c, d, 1044, g, h] @ r \<and> py_digit db a \<and> py_digit db b \<and>
      py_digit db c \<and> py_digit db d \<and> py_digit db g \<and> py_digit db h \<and> region_end db r)"
  apply (simp add: shape_simps)
  apply (elim exE conjE disjE)
         apply simp_all
  done

subsection \<open>Letters, digits and the two literals\<close>

lemma letter_cases:
  "plate_letter c \<longleftrightarrow> c = 1040 \<or> c = 1042 \<or> c = 1045 \<or> c = 1050 \<or> c = 1052 \<or> c = 1053 \<or>
     c = 1054 \<or> c = 1056 \<or> c = 1057 \<or> c = 1058 \<or> c = 1059 \<or> c = 1061"
  by (auto simp: plate_letter_def plate_letters_def)

lemma letter_not_digit: "plate_letter c \<Longrightarrow> \<not> py_digit db c"
  by (auto simp: letter_cases py_digit_def basic_cyrillic_def)

lemma digit_not_letter: "py_digit db c \<Longrightarrow> \<not> plate_letter c"
  using letter_not_digit by blast

lemma digit_neq: "py_digit db c \<Longrightarrow> c \<noteq> 10 \<and> c \<noteq> 1044 \<and> c \<noteq> 1058"
  by (auto simp: py_digit_def basic_cyrillic_def)

lemma letter_neq: "plate_letter c \<Longrightarrow> c \<noteq> 10 \<and> c \<noteq> 1044"
  by (auto simp: letter_cases)

subsection \<open>The loop over the table\<close>

lemma classify_loop_find:
  "classify_loop db (map (\<lambda>t. (t, pattern_of t)) ts) s =
     (case find (\<lambda>t. re_match db (pattern_of t) s) ts of
        None \<Rightarrow> Inr invalid_result
      | Some t \<Rightarrow> (case extract_region t s of
                    Inl e \<Rightarrow> Inl e
                  | Inr reg \<Rightarrow> Inr (valid_result t reg)))"
  by (induction ts) simp_all

lemma find_order_least:
  assumes "find P pattern_order = Some t"
  shows "P t \<and> (\<forall>u. P u \<longrightarrow> table_order t \<le> table_order u)"
proof -
  have "P t" using assms by (auto simp: find_Some_iff)
  moreover have "table_order t \<le> table_order u" if "P u" for u
    using assms that by (cases u; cases t) (auto simp: pattern_order_def split: if_splits)
  ultimately show ?thesis by blast
qed

lemma find_order_none: "find P pattern_order = None \<longleftrightarrow> (\<forall>t. \<not> P t)"
proof -
  have "set pattern_order = UNIV"
  proof -
    have "t \<in> set pattern_order" for t by (cases t) (simp_all add: pattern_order_def)
    then show ?thesis by blast
  qed
  then show ?thesis by (simp add: find_None_iff)
qed

subsection \<open>The region of a matching string\<close>

lemma final_chars_eq: "final_chars n s = last_chars n s"
  by (simp add: final_chars_def last_chars_def take_rev)

lemma py_split_free: "sep \<notin> set u \<Longrightarrow> py_split sep u = [u]"
  by (induction u) auto

lemma py_split_at: "sep \<notin> set u \<Longrightarrow> py_split sep (u @ sep # v) = u # py_split sep v"
  by (induction u) auto

lemma region_diplomatic_at:
  assumes "1044 \<notin> set u" and "1044 \<notin> set v"
  shows "region_diplomatic (u @ 1044 # v) = Inr v" and "after_literal 1044 (u @ 1044 # v) = v"
proof -
  show "region_diplomatic (u @ 1044 # v) = Inr v"
    using assms by (simp add: region_diplomatic_def py_split_at py_split_free)
  have "dropWhile (\<lambda>x. x \<noteq> 1044) (u @ 1044 # v) = 1044 # v"
    using assms(1) by (induction u) auto
  then show "after_literal 1044 (u @ 1044 # v) = v"
    by (simp add: after_literal_def)
qed

lemma region_end_free: "region_end db r \<Longrightarrow> 1044 \<notin> set r"
  by (auto simp: region_end_def line_end_def dest: digit_neq)

lemma diplomatic_split:
  assumes "re_match db (pattern_of Diplomatic) s"
  shows "\<exists>u v. s = u @ 1044 # v \<and> 1044 \<notin> set u \<and> 1044 \<notin> set v"
proof -
  from diplomatic_shape [OF assms] show ?thesis
  proof (elim disjE exE conjE)
    fix a b c g h r
    assume s: "s = [a, b, c, 1044, g, h] @ r"
      and d: "py_digit db a" "py_digit db b" "py_digit db c" "py_digit db g" "py_digit db h"
      and r: "region_end db r"
    have "s = [a, b, c] @ 1044 # (g # h # r)" using s by simp
    moreover have "1044 \<notin> set [a, b, c]" using d digit_neq by auto
    moreover have "1044 \<notin> set (g # h # r)" using d digit_neq region_end_free [OF r] by auto
    ultimately show ?thesis by blast
  next
    fix a b c d g h r
    assume s: "s = [a, b, c, d, 1044, g, h] @ r"
      and d: "py_digit db a" "py_digit db b" "py_digit db c" "py_digit db d"
        "py_digit db g" "py_digit db h"
      and r: "region_end db r"
    have "s = [a, b, c, d] @ 1044 # (g # h # r)" using s by simp
    moreover have "1044 \<notin> set [a, b, c, d]" using d digit_neq by auto
    moreover have "1044 \<notin> set (g # h # r)" using d digit_neq region_end_free [OF r] by auto
    ultimately show ?thesis by blast
  qed
qed

lemma extract_region_matched:
  assumes "re_match db (pattern_of t) s"
  shows "extract_region t s = Inr (table_region t s)"
proof (cases t)
  case Diplomatic
  with assms diplomatic_split obtain u v
    where "s = u @ 1044 # v" "1044 \<notin> set u" "1044 \<notin> set v" by blast
  then show ?thesis
    using Diplomatic by (simp add: extract_region_def region_diplomatic_at)
qed (simp_all add: extract_region_def region_standard_def region_other_def final_chars_eq)

subsection \<open>Which patterns can share a string\<close>

lemma signature:
  assumes "re_match db (pattern_of t) s"
  shows "case t of
      Standard \<Rightarrow> plate_letter (s ! 0) \<and> py_digit db (s ! 1) \<and> plate_letter (s ! 4)
    | Taxi \<Rightarrow> plate_letter (s ! 0) \<and> plate_letter (s ! 1)
    | Trailer \<Rightarrow> plate_letter (s ! 0) \<and> plate_letter (s ! 1)
    | Motorcycle \<Rightarrow> py_digit db (s ! 0) \<and> py_digit db (s ! 3) \<and> plate_letter (s ! 4)
    | Transit \<Rightarrow> plate_letter (s ! 0) \<and> py_digit db (s ! 1) \<and> py_digit db (s ! 4)
    | Diplomatic \<Rightarrow> py_digit db (s ! 0) \<and> (s ! 3 = 1044 \<or> s ! 4 = 1044)"
proof (cases t)
  case Standard
  with assms standard_shape show ?thesis by fastforce
next
  case Taxi
  with assms taxi_shape show ?thesis by fastforce
next
  case Trailer
  with assms trailer_shape show ?thesis by fastforce
next
  case Motorcycle
  with assms motorcycle_shape show ?thesis by fastforce
next
  case Transit
  with assms transit_shape [of db s] show ?thesis by (auto simp: letter_cases)
next
  case Diplomatic
  with assms diplomatic_shape [of db s] show ?thesis by auto
qed

lemma match_unique:
  assumes "re_match db (pattern_of t) s" and "re_match db (pattern_of t') s"
  shows "t = t' \<or> (t = Taxi \<and> t' = Trailer) \<or> (t = Trailer \<and> t' = Taxi)"
  using signature [OF assms(1)] signature [OF assms(2)]
  by (cases t; cases t') (auto dest: letter_not_digit digit_neq letter_neq)

subsection \<open>The classifier in closed form\<close>

lemma validate_find:
  "validate_russian_plate db raw =
     (case find (\<lambda>t. re_match db (pattern_of t) (normalize_plate db raw)) pattern_order of
        None \<Rightarrow> Inr invalid_result
      | Some t \<Rightarrow> Inr (valid_result t (table_region t (normalize_plate db raw))))"
proof (cases "find (\<lambda>t. re_match db (pattern_of t) (normalize_plate db raw)) pattern_order")
  case None
  then show ?thesis
    by (simp add: validate_russian_plate_def patterns_def classify_loop_find)
next
  case (Some t)
  then have "re_match db (pattern_of t) (normalize_plate db raw)"
    by (auto simp: find_Some_iff)
  then have "extract_region t (normalize_plate db raw) =
      Inr (table_region t (normalize_plate db raw))"
    by (rule extract_region_matched)
  with Some show ?thesis
    by (simp add: validate_russian_plate_def patterns_def classify_loop_find)
qed

lemmas run_defs = validate_russian_plate_def patterns_def pattern_order_def normalize_plate_def
  py_upper_def upper_char_def remove_char_def re_match_def eat_def letters_def plate_letters_def
  py_digit_def basic_cyrillic_def sample_db_def extract_region_def region_standard_def
  region_other_def region_diplomatic_def last_chars_def

subsection \<open>ASCII input\<close>

lemma letter_ge: "plate_letter c \<Longrightarrow> 128 \<le> c"
  by (auto simp: letter_cases)

lemma needs_cyrillic:
  assumes "re_match db (pattern_of t) s"
  shows "\<exists>c \<in> set s. 128 \<le> c"
proof (cases t)
  case Standard
  with assms standard_shape [of db s] show ?thesis by (auto dest: letter_ge)
next
  case Taxi
  with assms taxi_shape [of db s] show ?thesis by (auto dest: letter_ge)
next
  case Trailer
  with assms trailer_shape [of db s] show ?thesis by (auto dest: letter_ge)
next
  case Motorcycle
  with assms motorcycle_shape [of db s] show ?thesis by (auto dest: letter_ge)
next
  case Transit
  with assms transit_shape [of db s] show ?thesis by auto
next
  case Diplomatic
  with assms diplomatic_shape [of db s] show ?thesis by auto
qed

lemma normalize_ascii:
  "list_all (\<lambda>c. c < 128) raw \<Longrightarrow> list_all (\<lambda>c. c < 128) (normalize_plate db raw)"
  by (induction raw) (auto simp: normalize_plate_def py_upper_def upper_char_def remove_char_def)

subsection \<open>The two thresholds\<close>

lemma region_end_cases:
  "region_end db r \<longleftrightarrow>
     r = [] \<or> r = [10] \<or> (\<exists>i. py_digit db i \<and> (r = [i] \<or> r = [i, 10]))"
  by (auto simp: region_end_def line_end_def)

lemmas region_defs = region_standard_def region_other_def last_chars_def

lemma taxi_thresholds:
  assumes "re_match db (pattern_of Taxi) s"
  shows "(region_standard s = region_other s) = (length s \<noteq> 7)"
proof -
  from taxi_shape [OF assms] obtain a b c d e f g r
    where "s = [a, b, c, d, e, f, g] @ r" "region_end db r" by blast
  then show ?thesis
    by (auto simp: region_end_cases region_defs)
qed

lemma trailer_thresholds:
  assumes "re_match db (pattern_of Trailer) s"
  shows "region_standard s = region_other s \<and> length s \<noteq> 7"
proof -
  from trailer_shape [OF assms] obtain a b c d e f g h r
    where "s = [a, b, c, d, e, f, g, h] @ r" "region_end db r" by blast
  then show ?thesis
    by (auto simp: region_end_cases region_defs)
qed

lemma motorcycle_thresholds:
  assumes "re_match db (pattern_of Motorcycle) s"
  shows "region_standard s = region_other s \<and> length s \<noteq> 7"
proof -
  from motorcycle_shape [OF assms] obtain a b c d e f g h r
    where "s = [a, b, c, d, e, f, g, h] @ r" "region_end db r" by blast
  then show ?thesis
    by (auto simp: region_end_cases region_defs)
qed


subsection \<open>Regions without a newline\<close>

lemma region_end_plain:
  "region_end db r \<Longrightarrow> 10 \<notin> set r \<Longrightarrow> r = [] \<or> (\<exists>i. py_digit db i \<and> r = [i])"
  by (auto simp: region_end_cases)

lemma table_region_digits:
  assumes "re_match db (pattern_of t) s" and "10 \<notin> set s"
  shows "case table_region t s of
      None \<Rightarrow> True
    | Some reg \<Rightarrow> (length reg = 2 \<or> length reg = 3) \<and> list_all (py_digit db) reg"
proof (cases t)
  case Standard
  from assms(1) [unfolded Standard, THEN standard_shape] obtain a b c d e f g h r
    where s: "s = [a, b, c, d, e, f, g, h] @ r" and d: "py_digit db g" "py_digit db h"
      and r: "region_end db r" by blast
  from region_end_plain [OF r] assms(2) s have "r = [] \<or> (\<exists>i. py_digit db i \<and> r = [i])" by simp
  with s d Standard show ?thesis by (auto simp: final_chars_eq last_chars_def)
next
  case Taxi
  from assms(1) [unfolded Taxi, THEN taxi_shape] obtain a b c d e f g r
    where s: "s = [a, b, c, d, e, f, g] @ r" and d: "py_digit db f" "py_digit db g"
      and r: "region_end db r" by blast
  from region_end_plain [OF r] assms(2) s have "r = [] \<or> (\<exists>i. py_digit db i \<and> r = [i])" by simp
  with s d Taxi show ?thesis by (auto simp: final_chars_eq last_chars_def)
next
  case Trailer
  from assms(1) [unfolded Trailer, THEN trailer_shape] obtain a b c d e f g h r
    where s: "s = [a, b, c, d, e, f, g, h] @ r" and d: "py_digit db g" "py_digit db h"
      and r: "region_end db r" by blast
  from region_end_plain [OF r] assms(2) s have "r = [] \<or> (\<exists>i. py_digit db i \<and> r = [i])" by simp
  with s d Trailer show ?thesis by (auto simp: final_chars_eq last_chars_def)
next
  case Motorcycle
  from assms(1) [unfolded Motorcycle, THEN motorcycle_shape] obtain a b c d e f g h r
    where s: "s = [a, b, c, d, e, f, g, h] @ r" and d: "py_digit db g" "py_digit db h"
      and r: "region_end db r" by blast
  from region_end_plain [OF r] assms(2) s have "r = [] \<or> (\<exists>i. py_digit db i \<and> r = [i])" by simp
  with s d Motorcycle show ?thesis by (auto simp: final_chars_eq last_chars_def)
next
  case Transit
  then show ?thesis by simp
next
  case Diplomatic
  from assms(1) [unfolded Diplomatic, THEN diplomatic_shape] show ?thesis
  proof (elim disjE exE conjE)
    fix a b c g h r
    assume s: "s = [a, b, c, 1044, g, h] @ r"
      and d: "py_digit db a" "py_digit db b" "py_digit db c" "py_digit db g" "py_digit db h"
      and r: "region_end db r"
    from region_end_plain [OF r] assms(2) s have r': "r = [] \<or> (\<exists>i. py_digit db i \<and> r = [i])"
      by simp
    have "after_literal 1044 ([a, b, c] @ 1044 # (g # h # r)) = g # h # r"
      using d digit_neq region_end_free [OF r] by (intro region_diplomatic_at(2)) auto
    with s d r' Diplomatic show ?thesis by auto
  next
    fix a b c d' g h r
    assume s: "s = [a, b, c, d', 1044, g, h] @ r"
      and d: "py_digit db a" "py_digit db b" "py_digit db c" "py_digit db d'"
        "py_digit db g" "py_digit db h"
      and r: "region_end db r"
    from region_end_plain [OF r] assms(2) s have r': "r = [] \<or> (\<exists>i. py_digit db i \<and> r = [i])"
      by simp
    have "after_literal 1044 ([a, b, c, d'] @ 1044 # (g # h # r)) = g # h # r"
      using d digit_neq region_end_free [OF r] by (intro region_diplomatic_at(2)) auto
    with s d r' Diplomatic show ?thesis by auto
  qed
qed

lemma well_formed_without_newline:
  assumes "10 \<notin> set (normalize_plate db raw)" and "validate_russian_plate db raw = Inr r"
  shows "well_formed db r"
proof (cases "find (\<lambda>t. re_match db (pattern_of t) (normalize_plate db raw)) pattern_order")
  case None
  with assms(2) have "r = invalid_result" by (simp add: validate_find)
  then show ?thesis by (simp add: well_formed_def invalid_result_def)
next
  case (Some t)
  then have m: "re_match db (pattern_of t) (normalize_plate db raw)"
    by (auto simp: find_Some_iff)
  from Some assms(2) have "r = valid_result t (table_region t (normalize_plate db raw))"
    by (simp add: validate_find)
  with table_region_digits [OF m assms(1)] show ?thesis
    by (simp add: well_formed_def valid_result_def split: option.splits)
qed

subsection \<open>Counting\<close>

lemma validate_total: "\<exists>r. validate_russian_plate db raw = Inr r"
  by (simp add: validate_find split: option.split)

lemma update_counted: "counted_once st (update_stats ok st)"
  by (simp add: counted_once_def update_stats_def Let_def)

lemma counted_once_sum:
  "counted_once st st' \<Longrightarrow> total_count st = valid st + invalid st \<Longrightarrow>
   total_count st' = valid st' + invalid st'"
  by (auto simp: counted_once_def)

lemma counted_many_sum:
  "(counted_once ^^ n) st st' \<Longrightarrow> total_count st = valid st + invalid st \<Longrightarrow>
   total_count st' = valid st' + invalid st'"
proof (induction n arbitrary: st')
  case 0
  then show ?case by simp
next
  case (Suc n)
  from Suc.prems(1) obtain mid where "(counted_once ^^ n) st mid" "counted_once mid st'"
    by auto
  with Suc.IH Suc.prems(2) counted_once_sum show ?case by blast
qed

lemma batch_loop_counts:
  "batch_loop db ps results st = (results', st') \<Longrightarrow> (counted_once ^^ length ps) st st'"
proof (induction ps arbitrary: results st)
  case Nil
  then show ?case by simp
next
  case (Cons p ps)
  from validate_total obtain r where r: "validate_russian_plate db p = Inr r" by blast
  with Cons.prems have
    "batch_loop db ps (results @ [plate_response (normalize_plate db p) r])
       (update_stats (is_valid r) st) = (results', st')"
    by simp
  then have "(counted_once ^^ length ps) (update_stats (is_valid r) st) st'"
    by (rule Cons.IH)
  moreover have "counted_once st (update_stats (is_valid r) st)"
    by (rule update_counted)
  ultimately have "(counted_once ^^ Suc (length ps)) st st'"
    by (rule relpowp_Suc_I2 [rotated])
  then show ?case by simp
qed

lemma handle_counts:
  assumes "handle db req st = (resp, st')"
  shows "(counted_once ^^ classifications db req) st st'"
proof (cases req)
  case (PostValidate body)
  show ?thesis
  proof (cases "license_plate_request db body")
    case None
    with assms PostValidate show ?thesis by (simp add: validate_license_plate_def)
  next
    case (Some p)
    from validate_total obtain r where "validate_russian_plate db p = Inr r" by blast
    with assms PostValidate Some show ?thesis
      using update_counted by (auto simp: validate_license_plate_def)
  qed
next
  case (GetInfo p)
  from validate_total obtain r where "validate_russian_plate db p = Inr r" by blast
  with assms GetInfo show ?thesis
    using update_counted by (auto simp: get_license_plate_info_def split: if_splits)
next
  case (GetMany plates)
  with assms show ?thesis
    by (auto simp: validate_multiple_plates_def Let_def split: if_splits prod.splits
        dest: batch_loop_counts)
next
  case GetStats
  with assms show ?thesis by (simp add: get_validation_stats_def)
qed

lemma reachable_sum: "reachable db st \<Longrightarrow> total_count st = valid st + invalid st"
proof (induction rule: reachable.induct)
  case start
  show ?case by (simp add: validation_stats_def)
next
  case (step st req resp st')
  from handle_counts [OF step.hyps(2)] step.IH show ?case
    by (rule counted_many_sum)
qed

lemmas http_defs = validate_license_plate_def get_license_plate_info_def
  validate_multiple_plates_def plate_list_def py_strip_def py_space_def license_plate_request_def
  validate_plate_number_def update_stats_def plate_response_def validation_stats_def

section \<open>The claims\<close>

text \<open>
  C1. The classifier matches the six patterns against the input in upper case with all
  spaces and hyphens removed, and tries them in the order standard, taxi, trailer,
  motorcycle, transit, diplomatic. Whenever some pattern matches that string, the result is
  valid, and its type is a type whose pattern matches and which comes before every other
  type whose pattern matches: the earliest matching type.
\<close>

theorem first_match_wins:
  assumes "re_match db (pattern_of t) (filter (\<lambda>c. c \<noteq> 32 \<and> c \<noteq> 45) (py_upper db raw))"
  shows "\<exists>r t'. validate_russian_plate db raw = Inr r \<and> is_valid r \<and>
    plate_type r = Some t' \<and> message r = valid_message t' \<and>
    re_match db (pattern_of t') (filter (\<lambda>c. c \<noteq> 32 \<and> c \<noteq> 45) (py_upper db raw)) \<and>
    (\<forall>u. u \<noteq> t' \<and>
         re_match db (pattern_of u) (filter (\<lambda>c. c \<noteq> 32 \<and> c \<noteq> 45) (py_upper db raw)) \<longrightarrow>
         table_order t' < table_order u)"
proof -
  let ?s = "filter (\<lambda>c. c \<noteq> 32 \<and> c \<noteq> 45) (py_upper db raw)"
  let ?P = "\<lambda>t. re_match db (pattern_of t) ?s"
  have n: "normalize_plate db raw = ?s"
    by (simp add: normalize_plate_def remove_char_def conj_commute)
  from assms have "find ?P pattern_order \<noteq> None"
    by (auto simp: find_order_none)
  then obtain t' where f: "find ?P pattern_order = Some t'" by blast
  from find_order_least [OF f]
  have m: "?P t'" and le: "\<forall>u. ?P u \<longrightarrow> table_order t' \<le> table_order u" by blast+
  have "table_order t' < table_order u" if "u \<noteq> t'" "?P u" for u
  proof -
    from le that(2) have "table_order t' \<le> table_order u" by blast
    moreover have "table_order t' \<noteq> table_order u"
      using that(1) by (cases t'; cases u) simp_all
    ultimately show ?thesis by simp
  qed
  moreover have "validate_russian_plate db raw =
      Inr (valid_result t' (table_region t' ?s))"
    using f by (simp add: validate_find n)
  ultimately show ?thesis using m
    by (simp add: valid_result_def)
qed

text \<open>
  The lower-case input \<open>av 123-456\<close> in Cyrillic letters becomes two letters and six
  digits, which the trailer pattern matches and the taxi pattern matches too: the result is
  valid and its type is taxi, the earlier of the two.
\<close>

theorem first_match_wins_witness:
  "re_match sample_db (pattern_of Trailer)
      (filter (\<lambda>c. c \<noteq> 32 \<and> c \<noteq> 45) (py_upper sample_db [1072, 1074, 32, 49, 50, 51, 45, 52, 53, 54])) \<and>
   validate_russian_plate sample_db [1072, 1074, 32, 49, 50, 51, 45, 52, 53, 54] =
      Inr \<lparr>is_valid = True, plate_type = Some Taxi, region_code = Some [53, 54],
           message = valid_message Taxi\<rparr> \<and>
   (\<exists>r t'. validate_russian_plate sample_db [1072, 1074, 32, 49, 50, 51, 45, 52, 53, 54] = Inr r \<and> is_valid r \<and>
      plate_type r = Some t' \<and>
      (\<forall>u. u \<noteq> t' \<and> re_match sample_db (pattern_of u)
             (filter (\<lambda>c. c \<noteq> 32 \<and> c \<noteq> 45) (py_upper sample_db [1072, 1074, 32, 49, 50, 51, 45, 52, 53, 54])) \<longrightarrow>
           table_order t' < table_order u))"
proof -
  have h: "re_match sample_db (pattern_of Trailer)
      (filter (\<lambda>c. c \<noteq> 32 \<and> c \<noteq> 45) (py_upper sample_db [1072, 1074, 32, 49, 50, 51, 45, 52, 53, 54]))"
    by (simp add: run_defs)
  have v: "validate_russian_plate sample_db [1072, 1074, 32, 49, 50, 51, 45, 52, 53, 54] =
      Inr \<lparr>is_valid = True, plate_type = Some Taxi, region_code = Some [53, 54],
           message = valid_message Taxi\<rparr>"
    by (simp add: run_defs valid_result_def)
  from first_match_wins [OF h] h v show ?thesis by blast
qed

text \<open>
  C2. For a normalized string that matches the pattern of a type, the region code that the
  classifier returns is the one of that type's row in the table: for standard the last 2
  characters if the length is exactly 8 and the last 3 otherwise, for taxi, trailer and
  motorcycle the last 2 characters if the length is at most 8 and the last 3 otherwise,
  none for transit, and the substring after the literal for diplomatic.
\<close>

theorem region_by_table:
  assumes "re_match db (pattern_of t) (normalize_plate db raw)"
  shows "\<exists>r. validate_russian_plate db raw = Inr r \<and>
    region_code r = table_region t (normalize_plate db raw)"
proof -
  let ?s = "normalize_plate db raw"
  let ?P = "\<lambda>t. re_match db (pattern_of t) ?s"
  from assms have "find ?P pattern_order \<noteq> None"
    by (auto simp: find_order_none)
  then obtain t' where f: "find ?P pattern_order = Some t'" by blast
  then have "?P t'" by (auto simp: find_Some_iff)
  with assms have "t = t' \<or> (t = Taxi \<and> t' = Trailer) \<or> (t = Trailer \<and> t' = Taxi)"
    by (rule match_unique)
  then have "table_region t' ?s = table_region t ?s" by auto
  then show ?thesis using f by (simp add: validate_find valid_result_def)
qed

text \<open>
  A standard plate of 9 characters with region 178, whose last 3 characters are the
  region, and a taxi plate of 8 characters, two letters and 123456, whose region is its
  last 2 characters, 56.
\<close>

theorem region_by_table_witness:
  "re_match sample_db (pattern_of Standard) (normalize_plate sample_db [1040, 49, 50, 51, 1042, 1057, 49, 55, 56]) \<and>
   re_match sample_db (pattern_of Taxi) (normalize_plate sample_db [1040, 1042, 49, 50, 51, 52, 53, 54]) \<and>
   (\<exists>r. validate_russian_plate sample_db [1040, 49, 50, 51, 1042, 1057, 49, 55, 56] = Inr r \<and>
      region_code r = Some [49, 55, 56]) \<and>
   (\<exists>r. validate_russian_plate sample_db [1040, 1042, 49, 50, 51, 52, 53, 54] = Inr r \<and>
      region_code r = Some [53, 54])"
proof -
  have h1: "re_match sample_db (pattern_of Standard)
      (normalize_plate sample_db [1040, 49, 50, 51, 1042, 1057, 49, 55, 56])"
    by (simp add: run_defs)
  have h2: "re_match sample_db (pattern_of Taxi)
      (normalize_plate sample_db [1040, 1042, 49, 50, 51, 52, 53, 54])"
    by (simp add: run_defs)
  have e1: "table_region Standard (normalize_plate sample_db [1040, 49, 50, 51, 1042, 1057, 49, 55, 56]) =
      Some [49, 55, 56]"
    by (simp add: run_defs final_chars_def)
  have e2: "table_region Taxi (normalize_plate sample_db [1040, 1042, 49, 50, 51, 52, 53, 54]) =
      Some [53, 54]"
    by (simp add: run_defs final_chars_def)
  from region_by_table [OF h1] region_by_table [OF h2] h1 h2 e1 e2 show ?thesis by simp
qed

text \<open>
  C3. The counters start at zero. A request handled in a reachable state counts each of
  its classifications once, adding one to the total and to exactly one of valid and
  invalid, whichever of the three plate endpoints it comes through; so the total equals
  valid plus invalid before and after every request, in every reachable state.
\<close>

theorem counters_consistent:
  assumes "reachable db st" and "handle db req st = (resp, st')"
  shows "validation_stats = \<lparr>total_count = 0, valid = 0, invalid = 0\<rparr> \<and>
    (counted_once ^^ classifications db req) st st' \<and>
    total_count st = valid st + invalid st \<and>
    total_count st' = valid st' + invalid st'"
proof -
  have "reachable db st'" using assms by (rule reachable.step)
  then have "total_count st' = valid st' + invalid st'" by (rule reachable_sum)
  moreover have "total_count st = valid st + invalid st" using assms(1) by (rule reachable_sum)
  moreover have "(counted_once ^^ classifications db req) st st'"
    using assms(2) by (rule handle_counts)
  ultimately show ?thesis by (simp add: validation_stats_def)
qed

text \<open>The first request of a run, a valid standard plate posted to \<open>/validate\<close>.\<close>

theorem counters_consistent_witness:
  "reachable sample_db validation_stats \<and>
   handle sample_db (PostValidate [1040, 49, 50, 51, 1042, 1057, 55, 55]) validation_stats =
     (Plate (plate_response [1040, 49, 50, 51, 1042, 1057, 55, 55]
               (valid_result Standard (Some [55, 55]))),
      \<lparr>total_count = 1, valid = 1, invalid = 0\<rparr>) \<and>
   (counted_once ^^ classifications sample_db (PostValidate [1040, 49, 50, 51, 1042, 1057, 55, 55]))
     validation_stats \<lparr>total_count = 1, valid = 1, invalid = 0\<rparr> \<and>
   total_count \<lparr>total_count = 1, valid = 1, invalid = 0\<rparr> =
     valid \<lparr>total_count = 1, valid = 1, invalid = 0\<rparr> +
     invalid \<lparr>total_count = 1, valid = 1, invalid = 0\<rparr>"
proof -
  have h1: "reachable sample_db validation_stats" by (rule reachable.start)
  have h2: "handle sample_db (PostValidate [1040, 49, 50, 51, 1042, 1057, 55, 55]) validation_stats =
     (Plate (plate_response [1040, 49, 50, 51, 1042, 1057, 55, 55]
               (valid_result Standard (Some [55, 55]))),
      \<lparr>total_count = 1, valid = 1, invalid = 0\<rparr>)"
    by (simp add: http_defs run_defs valid_result_def)
  from counters_consistent [OF h1 h2] h1 h2 show ?thesis by blast
qed

text \<open>
  C4, as the code has it. The rule "last 2 characters if the length is exactly 8, else the
  last 3" and the rule "last 2 characters if the length is at most 8, else the last 3" give
  the same region for every string that matches the trailer or the motorcycle pattern, and
  for a string that matches the taxi pattern unless it has 7 characters (two letters and
  five digits), the only length below 8 that any of the three patterns admits; there the
  first rule takes 3 characters and the second takes 2.
\<close>

theorem thresholds_agree_except_short_taxi:
  assumes "t = Taxi \<or> t = Trailer \<or> t = Motorcycle"
    and "re_match db (pattern_of t) s"
  shows "(region_standard s = region_other s) = (length s \<noteq> 7) \<and> (length s = 7 \<longrightarrow> t = Taxi)"
  using assms taxi_thresholds [of db s] trailer_thresholds [of db s] motorcycle_thresholds [of db s]
  by auto

text \<open>The taxi plate of two letters, 123 and region 77: the rules give 377 and 77.\<close>

theorem thresholds_differ_counterexample:
  "normalize_plate sample_db [1040, 1042, 49, 50, 51, 55, 55] = [1040, 1042, 49, 50, 51, 55, 55] \<and>
   re_match sample_db (pattern_of Taxi) [1040, 1042, 49, 50, 51, 55, 55] \<and>
   region_standard [1040, 1042, 49, 50, 51, 55, 55] = [51, 55, 55] \<and>
   region_other [1040, 1042, 49, 50, 51, 55, 55] = [55, 55]"
  by (simp add: run_defs)

text \<open>With a region of three digits the taxi plate has 8 characters and the rules agree.\<close>

theorem thresholds_agree_except_short_taxi_witness:
  "re_match sample_db (pattern_of Taxi) [1040, 1042, 49, 50, 51, 55, 55, 55] \<and>
   region_standard [1040, 1042, 49, 50, 51, 55, 55, 55] =
     region_other [1040, 1042, 49, 50, 51, 55, 55, 55]"
proof -
  have h: "re_match sample_db (pattern_of Taxi) [1040, 1042, 49, 50, 51, 55, 55, 55]"
    by (simp add: run_defs)
  from thresholds_agree_except_short_taxi [of Taxi sample_db, OF _ h] h
  show ?thesis by simp
qed




text \<open>
  C6. When the normalized input matches none of the six patterns, the classifier returns
  the invalid result: not valid, no type, no region, and the message for a wrong format.
\<close>

theorem no_match_invalid:
  assumes "\<forall>t. \<not> re_match db (pattern_of t) (normalize_plate db raw)"
  shows "validate_russian_plate db raw =
    Inr \<lparr>is_valid = False, plate_type = None, region_code = None, message = invalid_message\<rparr>"
proof -
  from assms have "find (\<lambda>t. re_match db (pattern_of t) (normalize_plate db raw)) pattern_order = None"
    by (simp add: find_order_none)
  then show ?thesis by (simp add: validate_find invalid_result_def)
qed

text \<open>The input XYZZY.\<close>

theorem no_match_invalid_witness:
  "(\<forall>t. \<not> re_match sample_db (pattern_of t) (normalize_plate sample_db [88, 89, 90, 90, 89])) \<and>
   validate_russian_plate sample_db [88, 89, 90, 90, 89] =
     Inr \<lparr>is_valid = False, plate_type = None, region_code = None, message = invalid_message\<rparr>"
proof -
  have h: "\<forall>t. \<not> re_match sample_db (pattern_of t) (normalize_plate sample_db [88, 89, 90, 90, 89])"
  proof
    fix t
    show "\<not> re_match sample_db (pattern_of t) (normalize_plate sample_db [88, 89, 90, 90, 89])"
      by (cases t) (simp_all add: run_defs)
  qed
  from no_match_invalid [OF h] h show ?thesis by blast
qed

text \<open>
  C7. The classifier is total: for every string (the empty one included) it returns a
  result and raises nothing, and the result has exactly one of the seven shapes, the
  invalid one or the valid one of one of the six types. The result is valid exactly when
  some pattern matches the normalized input; an input that matches no pattern falls
  through to the invalid result.
\<close>

theorem classify_total:
  "\<exists>r. validate_russian_plate db raw = Inr r \<and>
     length (filter (\<lambda>shape. shape r) result_shapes) = 1 \<and>
     is_valid r = (\<exists>t. re_match db (pattern_of t) (normalize_plate db raw)) \<and>
     ((\<forall>t. \<not> re_match db (pattern_of t) (normalize_plate db raw)) \<longrightarrow>
        r = \<lparr>is_valid = False, plate_type = None, region_code = None,
             message = invalid_message\<rparr>)"
proof (cases "find (\<lambda>t. re_match db (pattern_of t) (normalize_plate db raw)) pattern_order")
  case None
  then have "validate_russian_plate db raw = Inr invalid_result"
    by (simp add: validate_find)
  moreover have "length (filter (\<lambda>shape. shape invalid_result) result_shapes) = 1"
    by (simp add: result_shapes_def pattern_order_def invalid_result_def valid_result_def)
  moreover from None have "\<forall>t. \<not> re_match db (pattern_of t) (normalize_plate db raw)"
    by (simp add: find_order_none)
  ultimately show ?thesis by (simp add: invalid_result_def)
next
  case (Some t)
  let ?r = "valid_result t (table_region t (normalize_plate db raw))"
  from Some have "validate_russian_plate db raw = Inr ?r"
    by (simp add: validate_find)
  moreover have "length (filter (\<lambda>shape. shape ?r) result_shapes) = 1"
    by (cases t) (simp_all add: result_shapes_def pattern_order_def invalid_result_def valid_result_def)
  moreover from Some have m: "re_match db (pattern_of t) (normalize_plate db raw)"
    by (auto simp: find_Some_iff)
  moreover have "is_valid ?r" by (simp add: valid_result_def)
  ultimately show ?thesis by auto
qed

text \<open>The shortest input there is, the one letter A, falls through to the invalid result.\<close>

theorem classify_total_witness:
  "(\<forall>t. \<not> re_match sample_db (pattern_of t) (normalize_plate sample_db [65])) \<and>
   validate_russian_plate sample_db [65] =
     Inr \<lparr>is_valid = False, plate_type = None, region_code = None,
          message = invalid_message\<rparr> \<and>
   length (filter (\<lambda>shape. shape \<lparr>is_valid = False, plate_type = None, region_code = None,
          message = invalid_message\<rparr>) result_shapes) = 1"
proof -
  have h: "\<forall>t. \<not> re_match sample_db (pattern_of t) (normalize_plate sample_db [65])"
  proof
    fix t
    show "\<not> re_match sample_db (pattern_of t) (normalize_plate sample_db [65])"
      by (cases t) (simp_all add: run_defs)
  qed
  from classify_total [of sample_db "[65]"] h show ?thesis by auto
qed

text \<open>
  C8. A batch request whose list of plates (split at commas, stripped, empty entries
  dropped) is empty or has more than 10 entries is answered with a 400 error, and the
  counters are left as they were: nothing is classified.
\<close>

theorem batch_rejected:
  assumes "plate_list db plates = [] \<or> 10 < length (plate_list db plates)"
  shows "validate_multiple_plates db plates st =
    (HttpError 400 (if plate_list db plates = [] then detail_none else detail_max), st)"
  using assms by (auto simp: validate_multiple_plates_def Let_def)

text \<open>Eleven plates, the numbers 1 to 11, after three earlier classifications.\<close>

theorem batch_rejected_witness:
  "10 < length (plate_list sample_db
      [49, 44, 50, 44, 51, 44, 52, 44, 53, 44, 54, 44, 55, 44, 56, 44, 57, 44, 49, 48, 44, 32, 49, 49]) \<and>
   validate_multiple_plates sample_db
      [49, 44, 50, 44, 51, 44, 52, 44, 53, 44, 54, 44, 55, 44, 56, 44, 57, 44, 49, 48, 44, 32, 49, 49]
      \<lparr>total_count = 3, valid = 2, invalid = 1\<rparr> =
     (HttpError 400 detail_max, \<lparr>total_count = 3, valid = 2, invalid = 1\<rparr>)"
proof -
  have h: "10 < length (plate_list sample_db
      [49, 44, 50, 44, 51, 44, 52, 44, 53, 44, 54, 44, 55, 44, 56, 44, 57, 44, 49, 48, 44, 32, 49, 49])"
    by (simp add: http_defs sample_db_def)
  then have "plate_list sample_db
      [49, 44, 50, 44, 51, 44, 52, 44, 53, 44, 54, 44, 55, 44, 56, 44, 57, 44, 49, 48, 44, 32, 49, 49] = [] \<or>
    10 < length (plate_list sample_db
      [49, 44, 50, 44, 51, 44, 52, 44, 53, 44, 54, 44, 55, 44, 56, 44, 57, 44, 49, 48, 44, 32, 49, 49])"
    by blast
  from batch_rejected [OF this, of "\<lparr>total_count = 3, valid = 2, invalid = 1\<rparr>"] h
  show ?thesis by auto
qed

text \<open>
  C9. The ASCII string A123BC77 is classified invalid, and so is every string of ASCII
  characters: each pattern needs a Cyrillic character, and upper-casing ASCII stays in
  ASCII.
\<close>

theorem latin_lookalikes_invalid:
  "validate_russian_plate db [65, 49, 50, 51, 66, 67, 55, 55] = Inr invalid_result \<and>
   (list_all (\<lambda>c. c < 128) raw \<longrightarrow> validate_russian_plate db raw = Inr invalid_result)"
proof -
  have g: "validate_russian_plate db raw = Inr invalid_result"
    if a: "list_all (\<lambda>c. c < 128) raw" for raw
  proof -
    have "\<not> re_match db (pattern_of t) (normalize_plate db raw)" for t
    proof
      assume "re_match db (pattern_of t) (normalize_plate db raw)"
      then obtain c where "c \<in> set (normalize_plate db raw)" "128 \<le> c"
        using needs_cyrillic by blast
      moreover have "\<forall>c \<in> set (normalize_plate db raw). c < 128"
        using normalize_ascii [OF a] by (simp add: list_all_iff)
      ultimately show False by fastforce
    qed
    then have "find (\<lambda>t. re_match db (pattern_of t) (normalize_plate db raw)) pattern_order = None"
      by (simp add: find_order_none)
    then show ?thesis by (simp add: validate_find)
  qed
  have "validate_russian_plate db [65, 49, 50, 51, 66, 67, 55, 55] = Inr invalid_result"
    by (rule g) simp
  with g show ?thesis by blast
qed

text \<open>The ASCII input \<open>a 123 bc 777\<close>.\<close>

theorem latin_lookalikes_invalid_witness:
  "list_all (\<lambda>c. c < 128) ([97, 32, 49, 50, 51, 32, 98, 99, 32, 55, 55, 55] :: ustr) \<and>
   validate_russian_plate sample_db [97, 32, 49, 50, 51, 32, 98, 99, 32, 55, 55, 55] = Inr invalid_result \<and>
   is_valid invalid_result = False"
proof -
  have h: "list_all (\<lambda>c. c < 128) [97, 32, 49, 50, 51, 32, 98, 99, 32, 55, 55, (55::nat)]" by simp
  from latin_lookalikes_invalid [of sample_db "[97, 32, 49, 50, 51, 32, 98, 99, 32, 55, 55, 55]"] h
  show ?thesis by (simp add: invalid_result_def)
qed

text \<open>
  C10 fails on the code. The pattern's \<open>$\<close> accepts a newline at the end of the
  string, which \<open>GET /{plate_number}\<close> passes on unstripped: the standard plate
  A123BC77 (in Cyrillic letters) followed by a newline is valid and has 9 characters, so
  its region is the last 3, the digits 77 and the newline.
\<close>

theorem region_keeps_newline:
  "validate_russian_plate db [1040, 49, 50, 51, 1042, 1057, 55, 55, 10] =
     Inr (valid_result Standard (Some [55, 55, 10])) \<and>
   \<not> well_formed db (valid_result Standard (Some [55, 55, 10]))"
  by (simp add: run_defs well_formed_def valid_result_def)

end
